theory Spec2Isabelle
  imports Complex_Main "HOL-Library.AList" "HOL-Library.Sublist"
begin

section \<open>Python strings\<close>

text \<open>
  A Python \<open>str\<close> is modelled as a \<open>string\<close>; a \<open>char\<close> stands for a code point
  below 256. The helpers below follow the built-in string methods the program calls.
\<close>

definition tab :: char where
  "tab = CHR 0x09"

definition newline :: char where
  "newline = CHR 0x0A"

definition cr :: char where
  "cr = CHR 0x0D"

text \<open>\<open>str.isspace\<close> on one code point below 256.\<close>

definition py_isspace :: "char \<Rightarrow> bool" where
  "py_isspace c = (of_char c \<in> {9, 10, 11, 12, 13, 28, 29, 30, 31, 32, 133, 160 :: nat})"

text \<open>\<open>s.strip()\<close>: leading and trailing whitespace removed.\<close>

definition py_strip :: "string \<Rightarrow> string" where
  "py_strip s = rev (dropWhile py_isspace (rev (dropWhile py_isspace s)))"

text \<open>\<open>s.split(sep)\<close> for a one-character separator: n separators give n + 1 parts.\<close>

fun py_split :: "char \<Rightarrow> string \<Rightarrow> string list" where
  "py_split sep [] = [[]]"
| "py_split sep (c # cs) =
     (if c = sep then [] # py_split sep cs
      else (case py_split sep cs of
              [] \<Rightarrow> [[c]]
            | p # ps \<Rightarrow> (c # p) # ps))"

text \<open>\<open>s.startswith(p)\<close>.\<close>

definition startswith :: "string \<Rightarrow> string \<Rightarrow> bool" where
  "startswith s p = (take (length p) s = p)"

text \<open>\<open>sub in s\<close>: \<open>sub\<close> occurs in \<open>s\<close> as a contiguous substring.\<close>

fun py_in :: "string \<Rightarrow> string \<Rightarrow> bool" where
  "py_in sub [] = (sub = [])"
| "py_in sub (c # cs) = (startswith (c # cs) sub \<or> py_in sub cs)"

text \<open>\<open>str(n)\<close> for an integer: decimal digits, with a minus sign when negative.\<close>

definition digit_char :: "nat \<Rightarrow> char" where
  "digit_char d = ''0123456789'' ! d"

fun str_nat :: "nat \<Rightarrow> string" where
  "str_nat n = (if n < 10 then [digit_char n] else str_nat (n div 10) @ [digit_char (n mod 10)])"

declare str_nat.simps [simp del]

definition str_int :: "int \<Rightarrow> string" where
  "str_int i = (if i < 0 then CHR ''-'' # str_nat (nat (- i)) else str_nat (nat i))"

section \<open>Exceptions\<close>

text \<open>
  The exception classes the program raises or lets through. \<open>HashcatErrorFrom p e\<close> and
  \<open>ExecutionErrorFrom p e\<close> stand for \<open>HashcatError(f"p{e}")\<close> and
  \<open>ExecutionError(f"p{e}")\<close>, whose message interpolates the caught exception \<open>e\<close>.
  \<open>BuiltinValueError s\<close> is the \<open>ValueError\<close> that \<open>int(s)\<close> or \<open>float(s)\<close> raises,
  \<open>NameError n\<close> the error of reading the unbound name \<open>n\<close>, \<open>NoSuchProcess\<close> the
  error of \<open>psutil\<close>.
\<close>

datatype exn =
    HashcatError string
  | HashcatErrorFrom string exn
  | CommandError string
  | ExecutionErrorFrom string exn
  | ValueError string
  | BuiltinValueError string
  | IndexError
  | OverflowError
  | OSError
  | FileNotFoundError
  | PermissionError
  | SubprocessError
  | TimeoutExpired
  | NameError string
  | NoSuchProcess

text \<open>\<open>isinstance(e, subprocess.SubprocessError)\<close>: the class itself and its subclasses.\<close>

fun is_SubprocessError :: "exn \<Rightarrow> bool" where
  "is_SubprocessError SubprocessError = True"
| "is_SubprocessError TimeoutExpired = True"
| "is_SubprocessError _ = False"

section \<open>hashcat.py: the runner\<close>

text \<open>
  A \<open>Union[str, Path]\<close> argument. \<open>PyPath s\<close> is a \<open>Path\<close> object whose \<open>str()\<close> is \<open>s\<close>;
  a \<open>Path\<close> is always truthy, a \<open>str\<close> is truthy when it is not empty.
\<close>

datatype pathlike = PyStr string | PyPath string

fun py_str :: "pathlike \<Rightarrow> string" where
  "py_str (PyStr s) = s"
| "py_str (PyPath s) = s"

fun truthy :: "pathlike \<Rightarrow> bool" where
  "truthy (PyStr s) = (s \<noteq> [])"
| "truthy (PyPath s) = True"

fun truthy_opt :: "pathlike option \<Rightarrow> bool" where
  "truthy_opt None = False"
| "truthy_opt (Some p) = truthy p"

fun truthy_str_opt :: "string option \<Rightarrow> bool" where
  "truthy_str_opt None = False"
| "truthy_str_opt (Some s) = (s \<noteq> [])"

text \<open>
  The configuration as the runner reads it: \<open>str(config.get_path('hashcat'))\<close> and
  \<open>str(config.get_path('potfile'))\<close>.
\<close>

record config =
  hashcat_path :: string
  potfile_path :: string

text \<open>The operating-system process behind a \<open>Popen\<close> handle.\<close>

datatype proc_state = Alive | Exited int

text \<open>\<open>HashcatRunner\<close>: \<open>self.process\<close> (\<open>None\<close> until \<open>start\<close>) and \<open>self.command\<close>.\<close>

record HashcatRunner =
  process :: "proc_state option"
  command :: "string list"

text \<open>
  \<open>build_command\<close>. The result pairs what the call returns or raises with the runner
  afterwards; a raise leaves \<open>self.command\<close> as it was.
\<close>

definition base_command :: "config \<Rightarrow> int \<Rightarrow> pathlike \<Rightarrow> int \<Rightarrow> string list" where
  "base_command cfg hash_type hash_file attack_mode =
     [hashcat_path cfg,
      ''--status'',
      ''--status-timer=1'',
      ''--machine-readable'',
      ''--quiet'',
      ''--potfile-path'', potfile_path cfg,
      ''-m'', str_int hash_type,
      ''-a'', str_int attack_mode,
      py_str hash_file]"

definition build_command ::
  "config \<Rightarrow> HashcatRunner \<Rightarrow> int \<Rightarrow> pathlike \<Rightarrow> int \<Rightarrow> pathlike option \<Rightarrow> pathlike option
     \<Rightarrow> string option \<Rightarrow> (exn + string list) \<times> HashcatRunner" where
  "build_command cfg self hash_type hash_file attack_mode wordlist rule msk =
     (let cmd = base_command cfg hash_type hash_file attack_mode in
      if attack_mode = 0 then
        (case wordlist of
           None \<Rightarrow> (Inl (CommandError ''Wordlist required for attack mode 0''), self)
         | Some w \<Rightarrow>
             if \<not> truthy w then (Inl (CommandError ''Wordlist required for attack mode 0''), self)
             else
               (let cmd1 = cmd @ [py_str w];
                    cmd2 = (case rule of
                              None \<Rightarrow> cmd1
                            | Some r \<Rightarrow> if truthy r then cmd1 @ [''-r'', py_str r] else cmd1)
                in (Inr cmd2, self\<lparr>command := cmd2\<rparr>)))
      else if attack_mode = 3 then
        (case msk of
           None \<Rightarrow> (Inl (CommandError ''Mask required for attack mode 3''), self)
         | Some m \<Rightarrow>
             if m = [] then (Inl (CommandError ''Mask required for attack mode 3''), self)
             else
               (let cmd1 = cmd @ [m]
                in (Inr cmd1, self\<lparr>command := cmd1\<rparr>)))
      else (Inr cmd, self\<lparr>command := cmd\<rparr>))"

text \<open>
  \<open>start\<close>. \<open>subprocess.Popen(self.command, ...)\<close> is the operating system's answer to
  the spawn request: a new process, or the exception that \<open>Popen\<close> raises. Only an
  exception that is an instance of \<open>subprocess.SubprocessError\<close> is caught and wrapped.
\<close>

definition start ::
  "(string list \<Rightarrow> exn + proc_state) \<Rightarrow> HashcatRunner \<Rightarrow> (exn + unit) \<times> HashcatRunner" where
  "start popen self =
     (if command self = [] then
        (Inl (CommandError ''Command not built. Call build_command first.''), self)
      else
        (case popen (command self) of
           Inr p \<Rightarrow> (Inr (), self\<lparr>process := Some p\<rparr>)
         | Inl e \<Rightarrow>
             if is_SubprocessError e
             then (Inl (ExecutionErrorFrom ''Failed to start hashcat: '' e), self)
             else (Inl e, self)))"

subsection \<open>Stopping the process\<close>

text \<open>
  What the supervised process does while \<open>stop\<close> runs is outside the program:
  \<open>exit_after_check\<close> is the exit code with which it ends by itself between the liveness
  check and the termination signal (if it does), \<open>term_response\<close> the delay in milliseconds
  and the exit code with which it ends after the termination signal (\<open>None\<close> when it does
  not end).
\<close>

record proc_env =
  exit_after_check :: "int option"
  term_response :: "(nat \<times> int) option"

text \<open>What a stop does that can be seen from outside: signals, and the time it lets pass.\<close>

datatype action =
    SendSIGTERM
  | SendSIGKILL
  | SendCTRL_C
  | KillChild nat
  | Waited nat
  | Slept nat

text \<open>\<open>Popen.poll()\<close>: \<open>None\<close> while the process runs, its exit code afterwards.\<close>

fun poll :: "proc_state \<Rightarrow> int option" where
  "poll Alive = None"
| "poll (Exited rc) = Some rc"

text \<open>
  \<open>Popen.terminate()\<close> and \<open>Popen.kill()\<close> poll first and send nothing to a process
  that has ended. To a running process they send the signal and return: neither waits,
  and the process is still running when they return.
\<close>

definition terminate :: "proc_state \<Rightarrow> action list" where
  "terminate p = (if poll p \<noteq> None then [] else [SendSIGTERM])"

definition kill :: "proc_state \<Rightarrow> action list" where
  "kill p = (if poll p \<noteq> None then [] else [SendSIGKILL])"

text \<open>
  \<open>Popen.wait(timeout)\<close> after the termination signal: returns once the process has
  ended, raises \<open>TimeoutExpired\<close> when the timeout passes first. The second component is
  the time spent waiting.
\<close>

definition wait :: "proc_env \<Rightarrow> nat \<Rightarrow> proc_state \<Rightarrow> (exn + proc_state) \<times> nat" where
  "wait env timeout p =
     (case p of
        Exited rc \<Rightarrow> (Inr p, 0)
      | Alive \<Rightarrow>
          (case term_response env of
             None \<Rightarrow> (Inl TimeoutExpired, timeout)
           | Some (d, rc) \<Rightarrow>
               if d \<le> timeout then (Inr (Exited rc), d) else (Inl TimeoutExpired, timeout)))"

text \<open>
  \<open>HashcatRunner.stop\<close>, with the grace period of five seconds. The result is what the
  call raises, the runner afterwards, and the signals sent and waits made, in order.
  After \<open>TimeoutExpired\<close> the kill signal is sent and \<open>stop\<close> returns at once: the process
  is left as \<open>wait\<close> last saw it, running.
\<close>

definition stop :: "proc_env \<Rightarrow> HashcatRunner \<Rightarrow> (exn + unit) \<times> HashcatRunner \<times> action list" where
  "stop env self =
     (case process self of
        None \<Rightarrow> (Inr (), self, [])
      | Some p \<Rightarrow>
          if poll p \<noteq> None then (Inr (), self, [])
          else
            (let p1 = (case exit_after_check env of None \<Rightarrow> p | Some rc \<Rightarrow> Exited rc);
                 a1 = terminate p1
             in case wait env 5000 p1 of
                  (Inr p3, t) \<Rightarrow> (Inr (), self\<lparr>process := Some p3\<rparr>, a1 @ [Waited t])
                | (Inl e, t) \<Rightarrow>
                    if e = TimeoutExpired
                    then (Inr (), self\<lparr>process := Some p1\<rparr>, a1 @ [Waited t] @ kill p1)
                    else (Inl e, self\<lparr>process := Some p1\<rparr>, a1 @ [Waited t])))"

text \<open>The test \<open>self.process and self.process.poll() is None\<close>.\<close>

definition running :: "HashcatRunner \<Rightarrow> bool" where
  "running self = (case process self of None \<Rightarrow> False | Some p \<Rightarrow> poll p = None)"

text \<open>The time a stop spent waiting or sleeping.\<close>

fun waited :: "action list \<Rightarrow> nat" where
  "waited [] = 0"
| "waited (Waited t # as) = t + waited as"
| "waited (Slept t # as) = t + waited as"
| "waited (a # as) = waited as"

subsection \<open>Parsing a status line\<close>

text \<open>\<open>int(s)\<close>: surrounding whitespace, an optional sign, digits with single underscores between them.\<close>

definition is_digit :: "char \<Rightarrow> bool" where
  "is_digit c = (48 \<le> (of_char c :: nat) \<and> (of_char c :: nat) \<le> 57)"

definition digit_val :: "char \<Rightarrow> nat" where
  "digit_val c = of_char c - 48"

fun int_body :: "string \<Rightarrow> bool" where
  "int_body [] = False"
| "int_body [c] = is_digit c"
| "int_body (c # d # cs) =
     (is_digit c \<and> (if d = CHR ''_'' then int_body cs else int_body (d # cs)))"

definition dec_value :: "string \<Rightarrow> nat" where
  "dec_value s = foldl (\<lambda>a c. 10 * a + digit_val c) 0 (filter is_digit s)"

text \<open>
  \<open>int\<close> and \<open>float\<close> skip the whitespace of the C locale and the whitespace code points
  from 128 on; the separators 28 to 31, which \<open>str.strip\<close> removes, they do not skip.
\<close>

definition num_isspace :: "char \<Rightarrow> bool" where
  "num_isspace c = (of_char c \<in> {9, 10, 11, 12, 13, 32, 133, 160 :: nat})"

definition num_strip :: "string \<Rightarrow> string" where
  "num_strip s = rev (dropWhile num_isspace (rev (dropWhile num_isspace s)))"

definition py_int :: "string \<Rightarrow> exn + int" where
  "py_int s =
     (case num_strip s of
        [] \<Rightarrow> Inl (BuiltinValueError s)
      | c # cs \<Rightarrow>
          if c = CHR ''-'' then
            (if int_body cs then Inr (- int (dec_value cs)) else Inl (BuiltinValueError s))
          else if c = CHR ''+'' then
            (if int_body cs then Inr (int (dec_value cs)) else Inl (BuiltinValueError s))
          else if int_body (c # cs) then Inr (int (dec_value (c # cs)))
          else Inl (BuiltinValueError s))"

text \<open>\<open>parts[i]\<close>: \<open>IndexError\<close> beyond the end.\<close>

definition index :: "'a list \<Rightarrow> nat \<Rightarrow> exn + 'a" where
  "index xs i = (if i < length xs then Inr (xs ! i) else Inl IndexError)"

definition bind_exn :: "exn + 'a \<Rightarrow> ('a \<Rightarrow> exn + 'b) \<Rightarrow> exn + 'b" where
  "bind_exn m f = (case m of Inl e \<Rightarrow> Inl e | Inr x \<Rightarrow> f x)"

text \<open>
  The built-ins of the interpreter that the parser calls and that are not modelled here:
  \<open>float(s)\<close> (\<open>None\<close> when it raises \<open>ValueError\<close>), \<open>datetime.fromtimestamp\<close> and
  \<open>datetime.now()\<close>. \<open>'f\<close> is the type of floats, \<open>'t\<close> the type of datetimes.
\<close>

record ('f, 't) builtins =
  py_float :: "string \<Rightarrow> 'f option"
  fromtimestamp :: "'f \<Rightarrow> exn + 't"
  now :: 't

definition to_float :: "('f, 't) builtins \<Rightarrow> string \<Rightarrow> exn + 'f" where
  "to_float B s = (case py_float B s of None \<Rightarrow> Inl (BuiltinValueError s) | Some x \<Rightarrow> Inr x)"

datatype 'f pynum = PyInt int | PyFloat 'f

record ('f, 't) HashcatStatus =
  status :: string
  progress :: "'f pynum"
  speed :: string
  estimated_completion :: string
  recovered_hashes :: int
  total_hashes :: int
  time_started :: 't

text \<open>The fields are read in the order the constructor call lists them.\<close>

definition parse_fields :: "('f, 't) builtins \<Rightarrow> string list \<Rightarrow> exn + ('f, 't) HashcatStatus" where
  "parse_fields B parts =
     bind_exn (index parts 1) (\<lambda>st.
     bind_exn (index parts 2) (\<lambda>p2.
     bind_exn (to_float B p2) (\<lambda>pr.
     bind_exn (index parts 3) (\<lambda>sp.
     bind_exn (index parts 4) (\<lambda>eta.
     bind_exn (index parts 5) (\<lambda>p5.
     bind_exn (py_int p5) (\<lambda>recovered.
     bind_exn (index parts 6) (\<lambda>p6.
     bind_exn (py_int p6) (\<lambda>total.
     bind_exn (index parts 7) (\<lambda>p7.
     bind_exn (to_float B p7) (\<lambda>epoch.
     bind_exn (fromtimestamp B epoch) (\<lambda>ts.
       Inr \<lparr>status = st, progress = PyFloat pr, speed = sp @ '' H/s'',
            estimated_completion = eta, recovered_hashes = recovered,
            total_hashes = total, time_started = ts\<rparr>))))))))))))"

text \<open>\<open>except (IndexError, ValueError)\<close>.\<close>

fun is_IndexError_or_ValueError :: "exn \<Rightarrow> bool" where
  "is_IndexError_or_ValueError IndexError = True"
| "is_IndexError_or_ValueError (ValueError m) = True"
| "is_IndexError_or_ValueError (BuiltinValueError s) = True"
| "is_IndexError_or_ValueError _ = False"

definition parse_status :: "('f, 't) builtins \<Rightarrow> string \<Rightarrow> exn + ('f, 't) HashcatStatus" where
  "parse_status B status_line =
     (if status_line = [] then
        Inr \<lparr>status = ''Running'', progress = PyInt 0, speed = ''0 H/s'',
             estimated_completion = [], recovered_hashes = 0, total_hashes = 0,
             time_started = now B\<rparr>
      else
        (case parse_fields B (py_split tab status_line) of
           Inr s \<Rightarrow> Inr s
         | Inl e \<Rightarrow>
             if is_IndexError_or_ValueError e
             then Inl (HashcatErrorFrom ''Failed to parse status: '' e)
             else Inl e))"

text \<open>A status line: its fields joined by tabs.\<close>

definition tab_join :: "string list \<Rightarrow> string" where
  "tab_join flds = (case flds of [] \<Rightarrow> [] | f # fs \<Rightarrow> f @ concat (map (\<lambda>g. tab # g) fs))"

text \<open>
  A reading of \<open>float\<close> on plain decimal literals (sign, digits, optional fraction), as
  the exact rational they denote; it agrees with \<open>float\<close> wherever that rational is a
  binary64 number. It instantiates \<open>py_float\<close> on concrete status lines.
\<close>

definition all_digits :: "string \<Rightarrow> bool" where
  "all_digits s = list_all is_digit s"

definition dec_unsigned :: "string \<Rightarrow> rat option" where
  "dec_unsigned s =
     (case py_split CHR ''.'' s of
        [ip] \<Rightarrow> if ip \<noteq> [] \<and> all_digits ip then Some (of_nat (dec_value ip)) else None
      | [ip, fp] \<Rightarrow>
          if (ip \<noteq> [] \<or> fp \<noteq> []) \<and> all_digits ip \<and> all_digits fp
          then Some (of_nat (dec_value ip) + of_nat (dec_value fp) / 10 ^ length fp)
          else None
      | _ \<Rightarrow> None)"

definition dec_float :: "string \<Rightarrow> rat option" where
  "dec_float s =
     (case num_strip s of
        [] \<Rightarrow> None
      | c # cs \<Rightarrow>
          if c = CHR ''-'' then map_option uminus (dec_unsigned cs)
          else if c = CHR ''+'' then dec_unsigned cs
          else dec_unsigned (c # cs))"

subsection \<open>Reading the results file\<close>

text \<open>
  A text file read line by line (\<open>for line in f\<close>, \<open>f.readlines()\<close>) with universal
  newlines: a line ends at a line feed, a carriage return or the pair of them, each read
  as one line feed; the last line may lack its terminator.
\<close>

fun read_from :: "string \<Rightarrow> string \<Rightarrow> string list" where
  "read_from acc [] = (if acc = [] then [] else [acc])"
| "read_from acc (c # cs) =
     (if c = newline then (acc @ [newline]) # read_from [] cs
      else if c = cr then
        (case cs of
           [] \<Rightarrow> [acc @ [newline]]
         | d # ds \<Rightarrow>
             if d = newline then (acc @ [newline]) # read_from [] ds
             else (acc @ [newline]) # read_from [] (d # ds))
      else read_from (acc @ [c]) cs)"

definition readlines :: "string \<Rightarrow> string list" where
  "readlines content = read_from [] content"

text \<open>
  Unpacking into two targets raises \<open>ValueError\<close> unless there are exactly two values.
\<close>

fun unpack2 :: "string list \<Rightarrow> exn + (string \<times> string)" where
  "unpack2 [a, b] = Inr (a, b)"
| "unpack2 [] = Inl (ValueError ''not enough values to unpack (expected 2, got 0)'')"
| "unpack2 [a] = Inl (ValueError ''not enough values to unpack (expected 2, got 1)'')"
| "unpack2 (a # b # c # ds) = Inl (ValueError ''too many values to unpack (expected 2)'')"

text \<open>
  The loop of \<open>get_results\<close> over the lines of the file. The dictionary keeps its keys in
  insertion order, so it is an association list updated in place.
\<close>

fun results_loop :: "(string \<times> string) list \<Rightarrow> string list \<Rightarrow> (string \<times> string) list" where
  "results_loop results [] = results"
| "results_loop results (line # rest) =
     (case unpack2 (py_split CHR '':'' (py_strip line)) of
        Inr (hash_val, password) \<Rightarrow> results_loop (AList.update hash_val password results) rest
      | Inl e \<Rightarrow> results_loop results rest)"

text \<open>
  \<open>get_results\<close>; the second argument is the results file at the configured path
  (\<open>None\<close> when it does not exist).
\<close>

definition get_results :: "HashcatRunner \<Rightarrow> string option \<Rightarrow> (string \<times> string) list" where
  "get_results self potfile =
     (if process self = None then []
      else
        (case potfile of
           None \<Rightarrow> []
         | Some content \<Rightarrow> results_loop [] (readlines content)))"

section \<open>server.py: the results-file monitor\<close>

text \<open>
  The names that the import statements of \<open>server.py\<close> bind in the module (its lines 1 to
  17); no other statement of the module binds a module name. The name \<open>os\<close> is not among
  them, so reading it raises \<open>NameError\<close>.
\<close>

definition server_imports :: "string list" where
  "server_imports =
     [''Flask'', ''request'', ''jsonify'', ''send_from_directory'', ''Response'', ''send_file'',
      ''subprocess'', ''Path'', ''json'', ''tempfile'', ''sys'', ''uuid'', ''time'', ''threading'',
      ''signal'', ''psutil'', ''logging'', ''Optional'', ''Dict'', ''Any'', ''secure_filename'',
      ''Config'', ''FileDialog'']"

definition name_bound :: "string \<Rightarrow> bool" where
  "name_bound n = (n \<in> set server_imports)"

text \<open>\<open>PotfileMonitor\<close>; \<open>stop_flag\<close> is the attribute \<open>_stop\<close>.\<close>

record PotfileMonitor =
  last_position :: nat
  last_size :: nat
  stop_flag :: bool

definition PotfileMonitor_init :: PotfileMonitor where
  "PotfileMonitor_init = \<lparr>last_position = 0, last_size = 0, stop_flag = False\<rparr>"

text \<open>
  The thread that runs \<open>start_monitoring\<close> touches the file three times in one turn of its
  loop, and the writer may append between any two of them: the loop test with
  \<open>os.path.exists\<close>, then \<open>os.path.getsize\<close> with the comparison, then the \<open>with open\<close>
  block. \<open>AtRead n\<close> holds \<open>current_size\<close>. The block reads to the end of the file as
  it is at that moment, so it is one step; positions count characters.
\<close>

datatype mon_pc = AtExists | AtGetsize | AtRead nat | Finished

text \<open>
  The file (\<open>None\<close> while it does not exist), the monitor, where its thread stands, and
  the arguments the callback has received so far.
\<close>

record world =
  potfile :: "string option"
  monitor :: PotfileMonitor
  pc :: mon_pc
  emitted :: "string list"

datatype event = Append string | MonStep | StopRequest

text \<open>
  One turn of the \<open>with open\<close> block: seek, \<open>readlines\<close>, one callback per line with the
  stripped line, \<open>tell\<close> (the end of the file, or the seek position when that lies beyond
  it), then \<open>last_size\<close> takes \<open>current_size\<close>.
\<close>

definition read_block :: "nat \<Rightarrow> string \<Rightarrow> world \<Rightarrow> world" where
  "read_block current_size content w =
     (let m = monitor w;
          new_lines = readlines (drop (last_position m) content)
      in w\<lparr>emitted := emitted w @ map py_strip new_lines,
           monitor := m\<lparr>last_position := max (last_position m) (length content),
                        last_size := current_size\<rparr>,
           pc := AtExists\<rparr>)"

text \<open>
  One step of the loop; \<open>os_bound\<close> tells whether the name \<open>os\<close> is bound in the module.
  Reading an unbound \<open>os\<close>, like a failing file operation, raises inside the \<open>try\<close>: the
  handler prints, the loop sleeps and goes on to its next turn.
\<close>

definition mon_step :: "bool \<Rightarrow> world \<Rightarrow> world" where
  "mon_step os_bound w =
     (case pc w of
        AtExists \<Rightarrow>
          if stop_flag (monitor w) then w\<lparr>pc := Finished\<rparr>
          else if \<not> os_bound then w
          else if potfile w = None then w
          else w\<lparr>pc := AtGetsize\<rparr>
      | AtGetsize \<Rightarrow>
          if \<not> os_bound then w\<lparr>pc := AtExists\<rparr>
          else
            (case potfile w of
               None \<Rightarrow> w\<lparr>pc := AtExists\<rparr>
             | Some content \<Rightarrow>
                 if length content > last_size (monitor w) then w\<lparr>pc := AtRead (length content)\<rparr>
                 else w\<lparr>pc := AtExists\<rparr>)
      | AtRead current_size \<Rightarrow>
          (case potfile w of
             None \<Rightarrow> w\<lparr>pc := AtExists\<rparr>
           | Some content \<Rightarrow> read_block current_size content w)
      | Finished \<Rightarrow> w)"

text \<open>The writer appends to the file, creating it; \<open>PotfileMonitor.stop\<close> sets the flag.\<close>

fun step :: "bool \<Rightarrow> event \<Rightarrow> world \<Rightarrow> world" where
  "step os_bound (Append s) w =
     w\<lparr>potfile := Some ((case potfile w of None \<Rightarrow> [] | Some content \<Rightarrow> content) @ s)\<rparr>"
| "step os_bound MonStep w = mon_step os_bound w"
| "step os_bound StopRequest w = w\<lparr>monitor := (monitor w)\<lparr>stop_flag := True\<rparr>\<rparr>"

definition run :: "bool \<Rightarrow> event list \<Rightarrow> world \<Rightarrow> world" where
  "run os_bound evs w = fold (step os_bound) evs w"

text \<open>The loop as it runs in \<open>server.py\<close>.\<close>

definition start_monitoring :: "event list \<Rightarrow> world \<Rightarrow> world" where
  "start_monitoring evs w = run (name_bound ''os'') evs w"

text \<open>A fresh monitor on a results file that does not exist yet.\<close>

definition world_init :: world where
  "world_init = \<lparr>potfile = None, monitor = PotfileMonitor_init, pc = AtExists, emitted = []\<rparr>"

text \<open>
  An append of one whole line: the text of the line, free of line terminators, then a
  line feed.
\<close>

definition clean_line :: "string \<Rightarrow> bool" where
  "clean_line l = (\<forall>c \<in> set l. c \<noteq> newline \<and> c \<noteq> cr)"

fun line_append :: "event \<Rightarrow> bool" where
  "line_append (Append s) = (s \<noteq> [] \<and> last s = newline \<and> clean_line (butlast s))"
| "line_append _ = True"

fun appended_lines :: "event list \<Rightarrow> string list" where
  "appended_lines [] = []"
| "appended_lines (Append s # evs) = butlast s # appended_lines evs"
| "appended_lines (e # evs) = appended_lines evs"

subsection \<open>The invariant of the monitor\<close>

text \<open>The file that holds the given lines, each followed by a line feed.\<close>

definition content_of :: "string list \<Rightarrow> string" where
  "content_of ls = concat (map (\<lambda>l. l @ [newline]) ls)"

text \<open>The bytes of the results file; none while it does not exist.\<close>

definition file_content :: "world \<Rightarrow> string" where
  "file_content w = (case potfile w of None \<Rightarrow> [] | Some content \<Rightarrow> content)"

text \<open>
  Between \<open>getsize\<close> and the read, \<open>current_size\<close> exceeds \<open>last_size\<close> and the file,
  which only grows, is at least that long.
\<close>

definition pc_ok :: "world \<Rightarrow> bool" where
  "pc_ok w = (case pc w of
                AtRead c \<Rightarrow> last_size (monitor w) < c \<and> c \<le> length (file_content w) \<and> potfile w \<noteq> None
              | _ \<Rightarrow> True)"

text \<open>
  The invariant of the monitor, for lines \<open>seen\<close> already passed to the callback and lines
  \<open>rest\<close> appended since: the file holds both, the cursor stands just after the seen ones,
  and the callback has received exactly those, stripped, in order.
\<close>

definition mon_inv :: "string list \<Rightarrow> string list \<Rightarrow> world \<Rightarrow> bool" where
  "mon_inv seen rest w =
     (file_content w = content_of (seen @ rest)
      \<and> (\<forall>l \<in> set (seen @ rest). clean_line l)
      \<and> last_position (monitor w) = length (content_of seen)
      \<and> emitted w = map py_strip seen
      \<and> last_size (monitor w) \<le> last_position (monitor w)
      \<and> pc_ok w)"

text \<open>The lines seen, and those still to read, once the monitor has made its next step.\<close>

definition seen_after :: "string list \<Rightarrow> string list \<Rightarrow> world \<Rightarrow> string list" where
  "seen_after seen rest w = (case pc w of AtRead c \<Rightarrow> seen @ rest | _ \<Rightarrow> seen)"

definition rest_after :: "string list \<Rightarrow> string list \<Rightarrow> world \<Rightarrow> string list" where
  "rest_after seen rest w = (case pc w of AtRead c \<Rightarrow> [] | _ \<Rightarrow> rest)"

text \<open>The loop is still turning: no stop was requested.\<close>

definition polling :: "world \<Rightarrow> bool" where
  "polling w = (\<not> stop_flag (monitor w) \<and> pc w \<noteq> Finished)"

section \<open>server.py: the stop route\<close>

text \<open>
  What lies outside \<open>stop_hashcat\<close>: the platform, the exit code with which the process
  ends during the one-second sleep (\<open>None\<close> when it still runs afterwards), the
  descendants that \<open>psutil\<close> lists, and whether a \<open>psutil\<close> call raises, after how many
  kill signals and with what.
\<close>

record route_env =
  win32 :: bool
  ends_in_sleep :: "int option"
  children :: "nat list"
  psutil_fails :: "(nat \<times> exn) option"

datatype response = Success | ErrorResponse exn | NotFound

text \<open>\<open>send_signal(CTRL_C_EVENT)\<close> on Windows, \<open>terminate()\<close> elsewhere.\<close>

definition term_signal :: "route_env \<Rightarrow> action" where
  "term_signal env = (if win32 env then SendCTRL_C else SendSIGTERM)"

text \<open>
  \<open>stop_hashcat\<close> on the global \<open>current_process\<close>: the response, the global afterwards,
  and the signals sent and the sleep, in order. An exception leaves the global as it was.
\<close>

definition stop_hashcat ::
  "route_env \<Rightarrow> proc_state option \<Rightarrow> response \<times> proc_state option \<times> action list" where
  "stop_hashcat env current_process =
     (case current_process of
        None \<Rightarrow> (NotFound, None, [])
      | Some p \<Rightarrow>
          (let a1 = (if poll p \<noteq> None then [] else [term_signal env]);
               p1 = (case p of
                       Exited rc \<Rightarrow> p
                     | Alive \<Rightarrow> (case ends_in_sleep env of None \<Rightarrow> Alive | Some rc \<Rightarrow> Exited rc));
               kills = map KillChild (children env) @ [SendSIGKILL]
           in if poll p1 = None then
                (case psutil_fails env of
                   None \<Rightarrow> (Success, None, a1 @ [Slept 1000] @ kills)
                 | Some (n, e) \<Rightarrow> (ErrorResponse e, Some p1, a1 @ [Slept 1000] @ take n kills))
              else (Success, None, a1 @ [Slept 1000])))"

section \<open>server.py: the argument validator\<close>

definition allowed_args :: "string set" where
  "allowed_args = {''-m'', ''-a'', ''-w'', ''--status'', ''--hwmon-disable'', ''-O'', ''-r''}"

text \<open>\<open>arg.split('=')[0] if '=' in arg else arg\<close>.\<close>

definition arg_base :: "string \<Rightarrow> string" where
  "arg_base arg = (if CHR ''='' \<in> set arg then hd (py_split CHR ''='' arg) else arg)"

text \<open>The loop of \<open>validate_hashcat_args\<close>; \<open>a0\<close> is \<open>args[0]\<close>.\<close>

fun validate_loop :: "string \<Rightarrow> string list \<Rightarrow> exn + bool" where
  "validate_loop a0 [] = Inr True"
| "validate_loop a0 (arg # rest) =
     (if arg = a0 then validate_loop a0 rest
      else if startswith arg ''-'' then
        (if arg_base arg \<notin> allowed_args then Inl (ValueError (''Invalid argument: '' @ arg))
         else validate_loop a0 rest)
      else if py_in ''..'' arg \<or> py_in ''~'' arg then
        Inl (ValueError (''Invalid path in argument: '' @ arg))
      else validate_loop a0 rest)"

definition validate_hashcat_args :: "string list \<Rightarrow> exn + bool" where
  "validate_hashcat_args args =
     (case args of [] \<Rightarrow> Inr True | a0 # rest \<Rightarrow> validate_loop a0 args)"

text \<open>What the loop checks of one token other than the executable path.\<close>

definition token_ok :: "string \<Rightarrow> bool" where
  "token_ok arg =
     (if startswith arg ''-'' then arg_base arg \<in> allowed_args
      else \<not> py_in ''..'' arg \<and> \<not> py_in ''~'' arg)"

definition rejection :: "string \<Rightarrow> exn" where
  "rejection arg =
     (if startswith arg ''-'' then ValueError (''Invalid argument: '' @ arg)
      else ValueError (''Invalid path in argument: '' @ arg))"

subsection \<open>Containment in a root directory, as the specification words it\<close>

text \<open>
  The specification asks that a path token resolve, after normalization, to a location
  inside one of the configured root directories. These definitions follow those words, for
  comparison with the validator: a path is normalized by dropping empty and \<open>.\<close>
  segments and resolving \<open>..\<close> against the segment before it, and lies strictly inside a
  root when the root's segments are a proper prefix of its own.
\<close>

fun spec_resolve :: "string list \<Rightarrow> string list \<Rightarrow> string list" where
  "spec_resolve acc [] = rev acc"
| "spec_resolve acc (seg # segs) =
     (if seg = ''..'' then spec_resolve (drop 1 acc) segs else spec_resolve (seg # acc) segs)"

definition spec_normalize :: "string \<Rightarrow> string list" where
  "spec_normalize p = spec_resolve [] (filter (\<lambda>seg. seg \<noteq> [] \<and> seg \<noteq> ''.'') (py_split CHR ''/'' p))"

definition spec_inside_root :: "string \<Rightarrow> string \<Rightarrow> bool" where
  "spec_inside_root dir p =
     (let r = spec_normalize dir; q = spec_normalize p
      in length r < length q \<and> take (length r) q = r)"

definition spec_inside_roots :: "string list \<Rightarrow> string \<Rightarrow> bool" where
  "spec_inside_roots roots p = list_ex (\<lambda>dir. spec_inside_root dir p) roots"

section \<open>Concrete inputs\<close>

definition cfg0 :: config where
  "cfg0 = \<lparr>hashcat_path = ''/usr/bin/hashcat'', potfile_path = ''/root/.hashcat/hashcat.potfile''\<rparr>"

definition r0 :: HashcatRunner where
  "r0 = \<lparr>process = None, command = []\<rparr>"

definition built :: HashcatRunner where
  "built = \<lparr>process = None,
             command = [''/usr/bin/hashcat'', ''--status'', ''-m'', ''0'', ''-a'', ''0'',
                        ''hashes.txt'', ''rockyou.txt'']\<rparr>"

definition env_ignores :: proc_env where
  "env_ignores = \<lparr>exit_after_check = None, term_response = None\<rparr>"

definition env_races :: proc_env where
  "env_races = \<lparr>exit_after_check = Some 0, term_response = None\<rparr>"

definition B0 :: "(rat, rat) builtins" where
  "B0 = \<lparr>py_float = dec_float, fromtimestamp = Inr, now = 0\<rparr>"

definition roots0 :: "string list" where
  "roots0 = [''/usr/bin'', ''/usr/share/wordlists'', ''/usr/share/hashcat/rules'', ''/tmp'']"

definition trace0 :: "event list" where
  "trace0 = [MonStep,
             Append (''5f4dcc3b5aa765d61d8327deb882cf99:password'' @ [newline]),
             MonStep, MonStep,
             Append (''8743b52063cd84097a65d1633f5c74f5:hashcat'' @ [newline]),
             MonStep,
             Append (''b4b9b02e6f09a9bd760f388b67351e2b:hunter2'' @ [newline]),
             MonStep]"

definition running0 :: HashcatRunner where
  "running0 = built\<lparr>process := Some Alive\<rparr>"

definition env_responds :: proc_env where
  "env_responds = \<lparr>exit_after_check = None, term_response = Some (1200, - 15)\<rparr>"

definition env_slow :: proc_env where
  "env_slow = \<lparr>exit_after_check = None, term_response = Some (9000, - 15)\<rparr>"

definition env_dying :: proc_env where
  "env_dying = \<lparr>exit_after_check = None, term_response = Some (0, - 9)\<rparr>"

definition renv_ends :: route_env where
  "renv_ends = \<lparr>win32 = False, ends_in_sleep = Some (- 15), children = [], psutil_fails = None\<rparr>"

definition renv_kills :: route_env where
  "renv_kills = \<lparr>win32 = False, ends_in_sleep = None, children = [4242, 4243], psutil_fails = None\<rparr>"

definition renv_fails :: route_env where
  "renv_fails = \<lparr>win32 = False, ends_in_sleep = None, children = [4242, 4243],
                 psutil_fails = Some (1, NoSuchProcess)\<rparr>"

section \<open>Properties of the command builder\<close>

lemma str_nat_small: "n < 10 \<Longrightarrow> str_nat n = [digit_char n]"
  by (subst str_nat.simps) simp

lemma str_nat_big: "\<not> n < 10 \<Longrightarrow> str_nat n = str_nat (n div 10) @ [digit_char (n mod 10)]"
  by (subst str_nat.simps) simp

lemma str_nat_digits: "\<forall>c \<in> set (str_nat n). is_digit c"
proof (induction n rule: str_nat.induct)
  case (1 n)
  have d: "\<And>k. k < 10 \<Longrightarrow> is_digit (digit_char k)"
  proof -
    fix k :: nat assume "k < 10"
    then have "k \<in> {0, 1, 2, 3, 4, 5, 6, 7, 8, 9}" by auto
    then show "is_digit (digit_char k)"
      by (auto simp: is_digit_def digit_char_def)
  qed
  show ?case
  proof (cases "n < 10")
    case True
    then show ?thesis using d by (simp add: str_nat_small)
  next
    case False
    then show ?thesis using 1 d[of "n mod 10"] by (auto simp: str_nat_big)
  qed
qed

lemma str_int_not_dash_r: "str_int i \<noteq> ''-r''"
proof
  assume a: "str_int i = ''-r''"
  show False
  proof (cases "i < 0")
    case True
    with a have "str_nat (nat (- i)) = ''r''" by (simp add: str_int_def)
    then have "CHR ''r'' \<in> set (str_nat (nat (- i)))" by simp
    with str_nat_digits show False by (fastforce simp: is_digit_def)
  next
    case False
    with a have "CHR ''-'' \<in> set (str_nat (nat i))" by (simp add: str_int_def)
    with str_nat_digits show False by (fastforce simp: is_digit_def)
  qed
qed

lemma str_int_0: "str_int 0 = ''0''"
  by (simp add: str_int_def digit_char_def str_nat_small)

text \<open>
  C3. When attack mode 0 is requested without a wordlist (absent or empty), or attack
  mode 3 without a mask, \<open>build_command\<close> raises \<open>CommandError\<close>, and the runner is as
  it was before the call: no command is stored and no process is attached, so nothing
  has been validated or spawned.
\<close>

theorem build_command_missing_parameter:
  "(attack_mode = 0 \<and> \<not> truthy_opt wordlist \<longrightarrow>
      build_command cfg self hash_type hash_file attack_mode wordlist rule msk
        = (Inl (CommandError ''Wordlist required for attack mode 0''), self))
   \<and> (attack_mode = 3 \<and> \<not> truthy_str_opt msk \<longrightarrow>
      build_command cfg self hash_type hash_file attack_mode wordlist rule msk
        = (Inl (CommandError ''Mask required for attack mode 3''), self))"
  by (cases wordlist; cases msk) (simp_all add: build_command_def Let_def)

theorem build_command_missing_parameter_witness:
  "build_command cfg0 r0 0 (PyStr ''hashes.txt'') 0 None None None
     = (Inl (CommandError ''Wordlist required for attack mode 0''), r0)
   \<and> build_command cfg0 r0 0 (PyStr ''hashes.txt'') 3 (Some (PyStr ''rockyou.txt'')) None (Some [])
     = (Inl (CommandError ''Mask required for attack mode 3''), r0)"
  using build_command_missing_parameter [where attack_mode = 0 and wordlist = None and cfg = cfg0
      and self = r0 and hash_type = 0 and hash_file = "PyStr ''hashes.txt''" and rule = None and msk = None]
    build_command_missing_parameter [where attack_mode = 3 and wordlist = "Some (PyStr ''rockyou.txt'')"
      and cfg = cfg0 and self = r0 and hash_type = 0 and hash_file = "PyStr ''hashes.txt''"
      and rule = None and msk = "Some []"]
  by simp

text \<open>
  C4, as the claim states it, fails: for attack mode 1 the builder raises nothing and
  returns a command vector.
\<close>

theorem build_command_other_mode_counterexample:
  "fst (build_command cfg0 r0 0 (PyStr ''hashes.txt'') 1 None None None)
     = Inr [''/usr/bin/hashcat'', ''--status'', ''--status-timer=1'', ''--machine-readable'',
            ''--quiet'', ''--potfile-path'', ''/root/.hashcat/hashcat.potfile'',
            ''-m'', ''0'', ''-a'', ''1'', ''hashes.txt'']"
  by (simp add: build_command_def base_command_def cfg0_def str_int_def digit_char_def
      str_nat_small str_nat_big Let_def)

text \<open>
  C4, amended. For every attack mode other than 0 and 3, \<open>build_command\<close> rejects nothing:
  it returns the vector of the binary path, the monitoring flags, the hash-type and
  attack-mode flags and the hash file, with no mode-specific token, and stores it as the
  runner's command, whatever wordlist, rule or mask was passed.
\<close>

theorem build_command_other_mode:
  "attack_mode \<noteq> 0 \<Longrightarrow> attack_mode \<noteq> 3 \<Longrightarrow>
   build_command cfg self hash_type hash_file attack_mode wordlist rule msk
     = (Inr (base_command cfg hash_type hash_file attack_mode),
        self\<lparr>command := base_command cfg hash_type hash_file attack_mode\<rparr>)"
  by (simp add: build_command_def Let_def)

theorem build_command_other_mode_witness:
  "build_command cfg0 r0 1000 (PyStr ''hashes.txt'') 6 (Some (PyStr ''rockyou.txt'')) None (Some ''?d?d'')
     = (Inr [''/usr/bin/hashcat'', ''--status'', ''--status-timer=1'', ''--machine-readable'',
            ''--quiet'', ''--potfile-path'', ''/root/.hashcat/hashcat.potfile'',
            ''-m'', ''1000'', ''-a'', ''6'', ''hashes.txt''],
        r0\<lparr>command := [''/usr/bin/hashcat'', ''--status'', ''--status-timer=1'', ''--machine-readable'',
            ''--quiet'', ''--potfile-path'', ''/root/.hashcat/hashcat.potfile'',
            ''-m'', ''1000'', ''-a'', ''6'', ''hashes.txt'']\<rparr>)"
  using build_command_other_mode [where attack_mode = 6 and cfg = cfg0 and self = r0
      and hash_type = 1000 and hash_file = "PyStr ''hashes.txt''"
      and wordlist = "Some (PyStr ''rockyou.txt'')" and rule = None and msk = "Some ''?d?d''"]
  by (simp add: base_command_def cfg0_def str_int_def digit_char_def str_nat_small str_nat_big)

text \<open>
  C5. For attack mode 0 with a wordlist and no rule (absent or empty), \<open>build_command\<close>
  returns, and stores, exactly the binary path, \<open>--status\<close>, \<open>--status-timer=1\<close>,
  \<open>--machine-readable\<close>, \<open>--quiet\<close>, \<open>--potfile-path\<close> with the results file,
  \<open>-m\<close> with the hash type, \<open>-a 0\<close>, the hash file and last the wordlist. The builder adds
  no \<open>-r\<close>: unless one of the paths passed in is itself the text \<open>-r\<close>, the vector does
  not contain it.
\<close>

theorem build_command_wordlist_no_rule:
  assumes "truthy wordlist" and "\<not> truthy_opt rule"
  shows "build_command cfg self hash_type hash_file 0 (Some wordlist) rule msk
           = (Inr [hashcat_path cfg, ''--status'', ''--status-timer=1'', ''--machine-readable'',
                   ''--quiet'', ''--potfile-path'', potfile_path cfg,
                   ''-m'', str_int hash_type, ''-a'', ''0'', py_str hash_file, py_str wordlist],
              self\<lparr>command :=
                  [hashcat_path cfg, ''--status'', ''--status-timer=1'', ''--machine-readable'',
                   ''--quiet'', ''--potfile-path'', potfile_path cfg,
                   ''-m'', str_int hash_type, ''-a'', ''0'', py_str hash_file, py_str wordlist]\<rparr>)
         \<and> (hashcat_path cfg \<noteq> ''-r'' \<and> potfile_path cfg \<noteq> ''-r'' \<and> py_str hash_file \<noteq> ''-r''
              \<and> py_str wordlist \<noteq> ''-r'' \<longrightarrow>
            (\<forall>cmd. fst (build_command cfg self hash_type hash_file 0 (Some wordlist) rule msk) = Inr cmd
                \<longrightarrow> ''-r'' \<notin> set cmd))"
  using assms str_int_not_dash_r[of hash_type]
  by (cases rule) (auto simp add: build_command_def base_command_def str_int_0 Let_def)

theorem build_command_wordlist_no_rule_witness:
  "build_command cfg0 r0 0 (PyStr ''hashes.txt'') 0 (Some (PyStr ''rockyou.txt'')) None None
     = (Inr [''/usr/bin/hashcat'', ''--status'', ''--status-timer=1'', ''--machine-readable'',
             ''--quiet'', ''--potfile-path'', ''/root/.hashcat/hashcat.potfile'',
             ''-m'', ''0'', ''-a'', ''0'', ''hashes.txt'', ''rockyou.txt''],
        r0\<lparr>command :=
             [''/usr/bin/hashcat'', ''--status'', ''--status-timer=1'', ''--machine-readable'',
             ''--quiet'', ''--potfile-path'', ''/root/.hashcat/hashcat.potfile'',
             ''-m'', ''0'', ''-a'', ''0'', ''hashes.txt'', ''rockyou.txt'']\<rparr>)
   \<and> ''-r'' \<notin> set [''/usr/bin/hashcat'', ''--status'', ''--status-timer=1'', ''--machine-readable'',
             ''--quiet'', ''--potfile-path'', ''/root/.hashcat/hashcat.potfile'',
             ''-m'', ''0'', ''-a'', ''0'', ''hashes.txt'', ''rockyou.txt'']"
  using build_command_wordlist_no_rule [where wordlist = "PyStr ''rockyou.txt''" and rule = None
      and cfg = cfg0 and self = r0 and hash_type = 0 and hash_file = "PyStr ''hashes.txt''"
      and msk = None]
  by (simp add: cfg0_def str_int_0)

section \<open>Properties of the process controller\<close>

text \<open>
  C8. When the spawn fails because the binary is missing, because permission is denied or
  because the system is out of resources, \<open>Popen\<close> raises \<open>FileNotFoundError\<close>,
  \<open>PermissionError\<close> or another \<open>OSError\<close>. None of them is a
  \<open>subprocess.SubprocessError\<close>, so \<open>start\<close> lets each through as it is instead of
  raising \<open>ExecutionError\<close>; the runner is left as it was, with no process attached.
\<close>

theorem start_spawn_failure_propagates:
  "start (\<lambda>cmd. Inl FileNotFoundError) built = (Inl FileNotFoundError, built)
   \<and> start (\<lambda>cmd. Inl PermissionError) built = (Inl PermissionError, built)
   \<and> start (\<lambda>cmd. Inl OSError) built = (Inl OSError, built)"
  by (simp add: start_def built_def)

lemma poll_None: "(poll p = None) = (p = Alive)"
  by (cases p) auto

lemma running_Alive: "running self = (process self = Some Alive)"
  by (auto simp: running_def poll_None split: option.splits)

lemma stop_not_running: "\<not> running self \<Longrightarrow> stop env self = (Inr (), self, [])"
  by (auto simp: stop_def running_def split: option.splits)

lemma stop_race:
  "running self \<Longrightarrow> exit_after_check env = Some rc \<Longrightarrow>
   stop env self = (Inr (), self\<lparr>process := Some (Exited rc)\<rparr>, [Waited 0])"
  by (simp add: running_Alive stop_def terminate_def wait_def)

lemma stop_graceful:
  "running self \<Longrightarrow> exit_after_check env = None \<Longrightarrow> term_response env = Some (d, rc) \<Longrightarrow>
   d \<le> 5000 \<Longrightarrow>
   stop env self = (Inr (), self\<lparr>process := Some (Exited rc)\<rparr>, [SendSIGTERM, Waited d])"
  by (simp add: running_Alive stop_def terminate_def wait_def)

lemma stop_kill_slow:
  "running self \<Longrightarrow> exit_after_check env = None \<Longrightarrow> term_response env = Some (d, rc) \<Longrightarrow>
   5000 < d \<Longrightarrow>
   stop env self = (Inr (), self, [SendSIGTERM, Waited 5000, SendSIGKILL])"
  by (simp add: running_Alive stop_def terminate_def wait_def kill_def)

lemma stop_kill_deaf:
  "running self \<Longrightarrow> exit_after_check env = None \<Longrightarrow> term_response env = None \<Longrightarrow>
   stop env self = (Inr (), self, [SendSIGTERM, Waited 5000, SendSIGKILL])"
  by (simp add: running_Alive stop_def terminate_def wait_def kill_def)

lemma stop_no_raise_bounded:
  "fst (stop env self) = Inr () \<and> waited (snd (snd (stop env self))) \<le> 5000"
proof (cases "running self")
  case False
  then show ?thesis by (simp add: stop_not_running)
next
  case True
  show ?thesis
  proof (cases "exit_after_check env")
    case (Some rc)
    with True show ?thesis by (simp add: stop_race)
  next
    case None
    show ?thesis
    proof (cases "term_response env")
      case None
      with True \<open>exit_after_check env = None\<close> show ?thesis by (simp add: stop_kill_deaf)
    next
      case (Some r)
      obtain d rc where r: "r = (d, rc)" by (cases r)
      show ?thesis
      proof (cases "d \<le> 5000")
        case True
        with \<open>running self\<close> None Some r show ?thesis by (simp add: stop_graceful)
      next
        case False
        with \<open>running self\<close> None Some r show ?thesis by (simp add: stop_kill_slow)
      qed
    qed
  qed
qed

lemma stop_hashcat_alive:
  "stop_hashcat renv (Some Alive) =
     (case ends_in_sleep renv of
        Some rc \<Rightarrow> (Success, None, [term_signal renv, Slept 1000])
      | None \<Rightarrow>
          (case psutil_fails renv of
             None \<Rightarrow> (Success, None,
                       [term_signal renv, Slept 1000] @ map KillChild (children renv) @ [SendSIGKILL])
           | Some (n, e) \<Rightarrow> (ErrorResponse e, Some Alive,
                       [term_signal renv, Slept 1000]
                         @ take n (map KillChild (children renv) @ [SendSIGKILL]))))"
  by (simp add: stop_hashcat_def Let_def split: option.splits)

text \<open>
  C9, as the claim states it, fails. A process that does not end within the grace period
  is sent the kill signal and \<open>stop\<close> returns without waiting for it: by the runner's own
  test the process still runs when \<open>stop\<close> returns, and the next \<open>stop\<close> is not a no-op
  but signals and waits again. In \<open>stop_hashcat\<close> a process that has already ended is
  not left alone either: the route sleeps a second and clears the global, so that the
  next call is answered differently.
\<close>

theorem stop_counterexample:
  "running running0
   \<and> stop env_ignores running0 = (Inr (), running0, [SendSIGTERM, Waited 5000, SendSIGKILL])
   \<and> running (fst (snd (stop env_ignores running0)))
   \<and> stop env_dying (fst (snd (stop env_ignores running0)))
       = (Inr (), built\<lparr>process := Some (Exited (- 9))\<rparr>, [SendSIGTERM, Waited 0])
   \<and> stop_hashcat renv_kills (Some (Exited 0)) = (Success, None, [Slept 1000])
   \<and> stop_hashcat renv_kills None = (NotFound, None, [])"
  by (simp add: running_def running0_def built_def env_ignores_def env_dying_def renv_kills_def
      stop_def terminate_def wait_def kill_def stop_hashcat_def)

text \<open>
  C9, amended. \<open>HashcatRunner.stop\<close> on a runner that is not running (no process, or a
  process that has ended) changes nothing, sends no signal, waits for nothing and raises
  nothing, however often it is called. On a running runner it never raises and waits at
  most the grace period of five seconds: when the process has ended by itself between the
  liveness check and the signal, nothing is sent and the process is recorded as ended;
  when it ends within the grace period after the termination signal, it is recorded as
  ended; otherwise the kill signal is sent once and \<open>stop\<close> returns without waiting, the
  process still running by the runner's test. Whenever \<open>stop\<close> leaves the runner not
  running, a further \<open>stop\<close> is a no-op. \<open>stop_hashcat\<close> answers not-found and does
  nothing when the global holds no process. Otherwise it sends the termination signal
  (nothing to a process that has ended) and sleeps a second; if the process has ended by
  then it clears the global and answers success; if not, it sends the kill signal to every
  descendant and then to the process, without waiting, clears the global and answers
  success, unless a call of the process library raises, which is answered as an error
  with the global kept.
\<close>

theorem stop_behaviour:
  "(\<not> running self \<longrightarrow> stop env self = (Inr (), self, []))
   \<and> (running self \<and> exit_after_check env = Some rc \<longrightarrow>
        stop env self = (Inr (), self\<lparr>process := Some (Exited rc)\<rparr>, [Waited 0]))
   \<and> (running self \<and> exit_after_check env = None \<and> term_response env = Some (d, rc) \<and> d \<le> 5000 \<longrightarrow>
        stop env self = (Inr (), self\<lparr>process := Some (Exited rc)\<rparr>, [SendSIGTERM, Waited d]))
   \<and> (running self \<and> exit_after_check env = None \<and> term_response env = Some (d, rc) \<and> 5000 < d \<longrightarrow>
        stop env self = (Inr (), self, [SendSIGTERM, Waited 5000, SendSIGKILL]))
   \<and> (running self \<and> exit_after_check env = None \<and> term_response env = None \<longrightarrow>
        stop env self = (Inr (), self, [SendSIGTERM, Waited 5000, SendSIGKILL]))
   \<and> fst (stop env self) = Inr ()
   \<and> waited (snd (snd (stop env self))) \<le> 5000
   \<and> (\<not> running (fst (snd (stop env self))) \<longrightarrow>
        stop env' (fst (snd (stop env self))) = (Inr (), fst (snd (stop env self)), []))
   \<and> stop_hashcat renv None = (NotFound, None, [])
   \<and> stop_hashcat renv (Some (Exited rc)) = (Success, None, [Slept 1000])
   \<and> (ends_in_sleep renv = Some rc \<longrightarrow>
        stop_hashcat renv (Some Alive) = (Success, None, [term_signal renv, Slept 1000]))
   \<and> (ends_in_sleep renv = None \<and> psutil_fails renv = None \<longrightarrow>
        stop_hashcat renv (Some Alive)
          = (Success, None,
             [term_signal renv, Slept 1000] @ map KillChild (children renv) @ [SendSIGKILL]))
   \<and> (ends_in_sleep renv = None \<and> psutil_fails renv = Some (n, e) \<longrightarrow>
        stop_hashcat renv (Some Alive)
          = (ErrorResponse e, Some Alive,
             [term_signal renv, Slept 1000] @ take n (map KillChild (children renv) @ [SendSIGKILL])))"
proof (intro conjI impI)
  show "fst (stop env self) = Inr ()" using stop_no_raise_bounded by blast
  show "waited (snd (snd (stop env self))) \<le> 5000" using stop_no_raise_bounded by blast
  show "stop_hashcat renv None = (NotFound, None, [])" by (simp add: stop_hashcat_def)
  show "stop_hashcat renv (Some (Exited rc)) = (Success, None, [Slept 1000])"
    by (simp add: stop_hashcat_def)
qed (simp_all add: stop_not_running stop_race stop_graceful stop_kill_slow stop_kill_deaf
      stop_hashcat_alive)

theorem stop_behaviour_witness:
  "\<not> running r0 \<and> stop env_ignores r0 = (Inr (), r0, [])
   \<and> running running0
   \<and> stop env_races running0 = (Inr (), built\<lparr>process := Some (Exited 0)\<rparr>, [Waited 0])
   \<and> stop env_responds running0
       = (Inr (), built\<lparr>process := Some (Exited (- 15))\<rparr>, [SendSIGTERM, Waited 1200])
   \<and> stop env_slow running0 = (Inr (), running0, [SendSIGTERM, Waited 5000, SendSIGKILL])
   \<and> stop env_ignores running0 = (Inr (), running0, [SendSIGTERM, Waited 5000, SendSIGKILL])
   \<and> stop env_ignores (fst (snd (stop env_responds running0)))
       = (Inr (), built\<lparr>process := Some (Exited (- 15))\<rparr>, [])
   \<and> stop_hashcat renv_ends (Some Alive) = (Success, None, [SendSIGTERM, Slept 1000])
   \<and> stop_hashcat renv_kills (Some Alive)
       = (Success, None, [SendSIGTERM, Slept 1000, KillChild 4242, KillChild 4243, SendSIGKILL])
   \<and> stop_hashcat renv_fails (Some Alive)
       = (ErrorResponse NoSuchProcess, Some Alive, [SendSIGTERM, Slept 1000, KillChild 4242])"
  using stop_behaviour [where self = r0 and env = env_ignores and env' = env_ignores and rc = 0
      and d = 0 and renv = renv_ends and n = 0 and e = NoSuchProcess]
    stop_behaviour [where self = running0 and env = env_races and env' = env_ignores and rc = 0
      and d = 0 and renv = renv_kills and n = 1 and e = NoSuchProcess]
    stop_behaviour [where self = running0 and env = env_responds and env' = env_ignores
      and rc = "- 15" and d = 1200 and renv = renv_ends and n = 1 and e = NoSuchProcess]
    stop_behaviour [where self = running0 and env = env_slow and env' = env_ignores
      and rc = "- 15" and d = 9000 and renv = renv_fails and n = 1 and e = NoSuchProcess]
    stop_behaviour [where self = running0 and env = env_ignores and env' = env_ignores
      and rc = 0 and d = 0 and renv = renv_kills and n = 1 and e = NoSuchProcess]
  by (simp add: running_def r0_def running0_def built_def env_ignores_def env_races_def
      env_responds_def env_slow_def renv_ends_def renv_kills_def renv_fails_def term_signal_def
      stop_def terminate_def wait_def kill_def stop_hashcat_def)

section \<open>Properties of the status parser\<close>

lemma py_split_nonempty: "py_split sep s \<noteq> []"
  by (induction s) (auto split: list.splits)

lemma py_split_nosep: "sep \<notin> set a \<Longrightarrow> py_split sep a = [a]"
  by (induction a) auto

lemma py_split_field: "sep \<notin> set a \<Longrightarrow> py_split sep (a @ sep # rest) = a # py_split sep rest"
  by (induction a) (auto split: list.splits)

lemma py_split_tab_join:
  "\<forall>f \<in> set flds. tab \<notin> set f \<Longrightarrow> flds \<noteq> [] \<Longrightarrow> py_split tab (tab_join flds) = flds"
proof (induction flds)
  case Nil
  then show ?case by simp
next
  case (Cons f fs)
  show ?case
  proof (cases fs)
    case Nil
    with Cons.prems show ?thesis by (simp add: tab_join_def py_split_nosep)
  next
    case (Cons g gs)
    with Cons.prems Cons.IH have "py_split tab (tab_join fs) = fs" by simp
    moreover have "tab_join (f # fs) = f @ tab # tab_join fs"
      using Cons by (simp add: tab_join_def)
    ultimately show ?thesis using Cons.prems by (simp add: py_split_field)
  qed
qed

text \<open>
  C6. A status line of eight tab-separated fields (tag, state, progress, throughput, ETA,
  recovered count, total count, epoch timestamp) whose progress and timestamp read as
  floats and whose counts read as integers decodes to a status with field 1 as state,
  field 2 as float progress, field 5 as recovered count and field 6 as total count. The
  line \<open>STATUS Running 42.5 1200kH/s 00:05:00 3 10 1690000000\<close> decodes to progress
  42.5, recovered count 3 and total count 10.
\<close>

theorem parse_status_fields:
  assumes "\<forall>f \<in> set [tag, state, prog, thr, eta, rec, tot, epoch]. tab \<notin> set f"
    and "py_float B prog = Some p"
    and "py_int rec = Inr r"
    and "py_int tot = Inr t"
    and "py_float B epoch = Some e"
    and "fromtimestamp B e = Inr ts"
  shows "parse_status B (tab_join [tag, state, prog, thr, eta, rec, tot, epoch])
         = Inr \<lparr>status = state, progress = PyFloat p, speed = thr @ '' H/s'',
                estimated_completion = eta, recovered_hashes = r, total_hashes = t,
                time_started = ts\<rparr>"
proof -
  have s: "py_split tab (tab_join [tag, state, prog, thr, eta, rec, tot, epoch])
           = [tag, state, prog, thr, eta, rec, tot, epoch]"
    using assms(1) by (intro py_split_tab_join) simp_all
  have ne: "tab_join [tag, state, prog, thr, eta, rec, tot, epoch] \<noteq> []"
    by (simp add: tab_join_def)
  have "parse_fields B [tag, state, prog, thr, eta, rec, tot, epoch]
         = Inr \<lparr>status = state, progress = PyFloat p, speed = thr @ '' H/s'',
                estimated_completion = eta, recovered_hashes = r, total_hashes = t,
                time_started = ts\<rparr>"
    using assms(2-6) by (simp add: parse_fields_def index_def bind_exn_def to_float_def)
  with s ne show ?thesis by (simp add: parse_status_def)
qed

lemma dec_float_progress: "dec_float ''42.5'' = Some (85 / 2)"
  by (simp add: dec_float_def dec_unsigned_def num_strip_def num_isspace_def all_digits_def is_digit_def dec_value_def digit_val_def)

lemma dec_float_epoch: "dec_float ''1690000000'' = Some 1690000000"
  by (simp add: dec_float_def dec_unsigned_def num_strip_def num_isspace_def all_digits_def is_digit_def dec_value_def digit_val_def)

lemma py_int_counts: "py_int ''3'' = Inr 3" "py_int ''10'' = Inr 10"
  by (simp_all add: py_int_def num_strip_def num_isspace_def is_digit_def dec_value_def digit_val_def)

theorem parse_status_fields_witness:
  "parse_status B0 (''STATUS'' @ [tab] @ ''Running'' @ [tab] @ ''42.5'' @ [tab] @ ''1200kH/s'' @ [tab]
        @ ''00:05:00'' @ [tab] @ ''3'' @ [tab] @ ''10'' @ [tab] @ ''1690000000'')
     = Inr \<lparr>status = ''Running'', progress = PyFloat (85 / 2), speed = ''1200kH/s H/s'',
            estimated_completion = ''00:05:00'', recovered_hashes = 3, total_hashes = 10,
            time_started = 1690000000\<rparr>"
  using parse_status_fields [where B = B0 and tag = "''STATUS''" and state = "''Running''"
      and prog = "''42.5''" and thr = "''1200kH/s''" and eta = "''00:05:00''" and rec = "''3''"
      and tot = "''10''" and epoch = "''1690000000''" and p = "85 / 2" and r = 3 and t = 10
      and e = 1690000000 and ts = 1690000000]
  by (simp add: B0_def tab_join_def tab_def dec_float_progress dec_float_epoch py_int_counts)

section \<open>Properties of the results reader\<close>

lemma results_loop_append:
  "results_loop results (xs @ ys) = results_loop (results_loop results xs) ys"
  by (induction xs arbitrary: results) (auto split: sum.splits)

lemma unpack2_error: "length parts \<noteq> 2 \<Longrightarrow> \<exists>e. unpack2 parts = Inl e"
  by (cases parts rule: unpack2.cases) auto

text \<open>
  C7. A line of the results file that, once stripped, does not split into exactly two
  parts at the colon leaves no trace: the loop of \<open>get_results\<close> gives the same mapping as
  if the line were not in the file, whatever comes before and after it, and raises
  nothing.
\<close>

theorem results_loop_discards_malformed:
  assumes "length (py_split CHR '':'' (py_strip line)) \<noteq> 2"
  shows "results_loop results (before @ line # rest) = results_loop results (before @ rest)"
proof -
  from assms obtain e where "unpack2 (py_split CHR '':'' (py_strip line)) = Inl e"
    using unpack2_error by blast
  then have "results_loop acc (line # rest) = results_loop acc rest" for acc
    by simp
  then show ?thesis
    by (simp only: results_loop_append)
qed

theorem results_loop_discards_malformed_witness:
  "length (py_split CHR '':'' (py_strip (''no colon here'' @ [newline]))) \<noteq> 2
   \<and> results_loop [] [''a:b'' @ [newline], ''no colon here'' @ [newline],
                       ''c:d:e'' @ [newline], ''f:g'' @ [newline]]
       = [(''a'', ''b''), (''f'', ''g'')]"
  using results_loop_discards_malformed [where line = "''no colon here'' @ [newline]"
      and results = "[]" and before = "[''a:b'' @ [newline]]"
      and rest = "[''c:d:e'' @ [newline], ''f:g'' @ [newline]]"]
  by (simp add: py_strip_def py_isspace_def newline_def)

text \<open>
  C10. When no process has been started, and when the results file does not exist,
  \<open>get_results\<close> returns the empty mapping and raises nothing.
\<close>

theorem get_results_empty:
  "process self = None \<or> pot = None \<Longrightarrow> get_results self pot = []"
  by (auto simp: get_results_def)

theorem get_results_empty_witness:
  "get_results r0 (Some ''5f4dcc3b5aa765d61d8327deb882cf99:password'') = []
   \<and> get_results (r0\<lparr>process := Some Alive\<rparr>) None = []"
  using get_results_empty [where self = r0 and pot = "Some ''5f4dcc3b5aa765d61d8327deb882cf99:password''"]
    get_results_empty [where self = "r0\<lparr>process := Some Alive\<rparr>" and pot = None]
  by (simp add: r0_def)

section \<open>Properties of the argument validator\<close>

lemma validate_loop_find:
  "validate_loop a0 args =
     (case find (\<lambda>arg. arg \<noteq> a0 \<and> \<not> token_ok arg) args of
        None \<Rightarrow> Inr True
      | Some arg \<Rightarrow> Inl (rejection arg))"
  by (induction args) (auto simp: token_ok_def rejection_def)

lemma validate_find:
  "validate_hashcat_args args =
     (case find (\<lambda>arg. arg \<noteq> hd args \<and> \<not> token_ok arg) args of
        None \<Rightarrow> Inr True
      | Some arg \<Rightarrow> Inl (rejection arg))"
  by (cases args) (simp_all add: validate_hashcat_args_def validate_loop_find)

text \<open>
  C2, amended. \<open>validate_hashcat_args\<close> skips every token equal to the first one (the
  executable path). Of the others it rejects the first that either starts with \<open>-\<close> and
  has a name (the text before any \<open>=\<close>) outside the fixed allow-list, or does not start
  with \<open>-\<close> and contains \<open>..\<close> or \<open>~\<close> anywhere in its text, with a \<open>ValueError\<close> that
  names the token. It accepts the list exactly when there is no such token: no token is
  compared with the configured root directories. Its result depends on the token list
  alone, which it only reads.
\<close>

theorem validate_hashcat_args_checks:
  "validate_hashcat_args args =
     (case find (\<lambda>arg. arg \<noteq> hd args \<and> \<not> token_ok arg) args of
        None \<Rightarrow> Inr True
      | Some arg \<Rightarrow> Inl (rejection arg))
   \<and> (validate_hashcat_args args = Inr True
        \<longleftrightarrow> (\<forall>arg \<in> set args. arg = hd args \<or> token_ok arg))"
proof
  show f: "validate_hashcat_args args =
     (case find (\<lambda>arg. arg \<noteq> hd args \<and> \<not> token_ok arg) args of
        None \<Rightarrow> Inr True
      | Some arg \<Rightarrow> Inl (rejection arg))"
    by (rule validate_find)
  show "validate_hashcat_args args = Inr True
        \<longleftrightarrow> (\<forall>arg \<in> set args. arg = hd args \<or> token_ok arg)"
  proof (cases "find (\<lambda>arg. arg \<noteq> hd args \<and> \<not> token_ok arg) args")
    case None
    have v: "validate_hashcat_args args = Inr True"
      by (subst f) (simp only: None option.case)
    have q: "\<forall>arg \<in> set args. arg = hd args \<or> token_ok arg"
      using None by (auto simp: find_None_iff)
    from v q show ?thesis by blast
  next
    case (Some a)
    have v: "validate_hashcat_args args = Inl (rejection a)"
      by (subst f) (simp only: Some option.case)
    have q: "a \<in> set args \<and> a \<noteq> hd args \<and> \<not> token_ok a"
      using Some by (auto simp: find_Some_iff)
    from v q show ?thesis by auto
  qed
qed

lemma token_ok_examples: "token_ok ''-m''" "token_ok ''0''" "token_ok ''--status''" "token_ok ''/etc/shadow''"
  "\<not> token_ok ''-w2''"
  by (simp_all add: token_ok_def startswith_def arg_base_def allowed_args_def)

theorem validate_hashcat_args_checks_witness:
  "validate_hashcat_args [''/usr/bin/hashcat'', ''-m'', ''0'', ''--status'', ''/etc/shadow''] = Inr True
   \<and> list_all (\<lambda>arg. arg = ''/usr/bin/hashcat'' \<or> token_ok arg)
         [''/usr/bin/hashcat'', ''-m'', ''0'', ''--status'', ''/etc/shadow'']
   \<and> validate_hashcat_args [''/usr/bin/hashcat'', ''-w2'', ''-m'', ''0'']
       = Inl (ValueError ''Invalid argument: -w2'')"
  using validate_hashcat_args_checks [where args = "[''/usr/bin/hashcat'', ''-m'', ''0'', ''--status'', ''/etc/shadow'']"]
    validate_hashcat_args_checks [where args = "[''/usr/bin/hashcat'', ''-w2'', ''-m'', ''0'']"]
  by (simp add: token_ok_examples rejection_def startswith_def)

text \<open>
  C2, as the claim states it, fails: a path outside every configured root is accepted, a
  path strictly inside a root is rejected because its file name contains two dots, and
  a flag outside the allow-list is accepted where it repeats the first token.
\<close>

theorem validate_hashcat_args_counterexample:
  "validate_hashcat_args [''/usr/bin/hashcat'', ''/etc/shadow''] = Inr True
   \<and> \<not> spec_inside_roots roots0 ''/etc/shadow''
   \<and> validate_hashcat_args [''/usr/bin/hashcat'', ''/usr/share/wordlists/my..list.txt'']
       = Inl (ValueError ''Invalid path in argument: /usr/share/wordlists/my..list.txt'')
   \<and> spec_inside_roots roots0 ''/usr/share/wordlists/my..list.txt''
   \<and> validate_hashcat_args [''--force'', ''--force''] = Inr True
   \<and> arg_base ''--force'' \<notin> allowed_args"
  by (simp add: validate_hashcat_args_def startswith_def arg_base_def allowed_args_def
      spec_inside_roots_def spec_inside_root_def spec_normalize_def roots0_def Let_def)

section \<open>Properties of the results-file monitor\<close>

lemma os_unbound: "\<not> name_bound ''os''"
  by (simp add: name_bound_def server_imports_def)

lemma step_unbound:
  assumes "pc w = AtExists \<or> pc w = Finished" and "emitted w = []"
  shows "(pc (step False e w) = AtExists \<or> pc (step False e w) = Finished)
         \<and> emitted (step False e w) = []"
  using assms by (cases e) (auto simp: mon_step_def)

lemma run_unbound:
  assumes "pc w = AtExists \<or> pc w = Finished" and "emitted w = []"
  shows "emitted (run False evs w) = []"
  using assms
proof (induction evs arbitrary: w)
  case Nil
  then show ?case by (simp add: run_def)
next
  case (Cons e evs)
  from step_unbound[OF Cons.prems] Cons.IH[of "step False e w"]
  have "emitted (run False evs (step False e w)) = []" by blast
  then show ?case by (simp add: run_def)
qed

text \<open>
  C1. The loop of \<open>start_monitoring\<close> reads the name \<open>os\<close> at the start of every turn, and
  \<open>server.py\<close> does not import it: each turn raises \<open>NameError\<close> inside the \<open>try\<close>, the
  handler prints it, and the callback is never called, whatever is appended to the
  results file and however the turns fall between the appends. In particular three whole
  lines appended while the loop runs, followed by a further turn, are not emitted.
\<close>

theorem start_monitoring_emits_nothing:
  "emitted (start_monitoring evs world_init) = []
   \<and> emitted (start_monitoring (trace0 @ replicate 3 MonStep) world_init) = []
   \<and> appended_lines trace0 =
       [''5f4dcc3b5aa765d61d8327deb882cf99:password'',
        ''8743b52063cd84097a65d1633f5c74f5:hashcat'',
        ''b4b9b02e6f09a9bd760f388b67351e2b:hunter2'']"
proof -
  have "emitted (start_monitoring evs' world_init) = []" for evs'
    using os_unbound run_unbound[of world_init evs']
    by (simp add: start_monitoring_def world_init_def)
  then show ?thesis by (simp add: trace0_def)
qed

subsection \<open>The loop with the name bound\<close>

text \<open>
  With \<open>os\<close> bound the loop does what the claim says; the missing import is the only
  defect.
\<close>

lemma content_of_append: "content_of (xs @ ys) = content_of xs @ content_of ys"
  by (simp add: content_of_def)

lemma content_of_Nil_iff: "(content_of ls = []) = (ls = [])"
  by (cases ls) (simp_all add: content_of_def)

lemma read_from_line:
  "clean_line l \<Longrightarrow> read_from acc (l @ newline # rest) = (acc @ l @ [newline]) # read_from [] rest"
  by (induction l arbitrary: acc) (simp_all add: clean_line_def)

lemma readlines_content_of:
  "\<forall>l \<in> set ls. clean_line l \<Longrightarrow> readlines (content_of ls) = map (\<lambda>l. l @ [newline]) ls"
proof (induction ls)
  case Nil
  then show ?case by (simp add: readlines_def content_of_def)
next
  case (Cons l ls)
  then have "read_from [] (l @ newline # content_of ls) = (l @ [newline]) # read_from [] (content_of ls)"
    using read_from_line[of l "[]" "content_of ls"] by simp
  with Cons show ?case by (simp add: readlines_def content_of_def)
qed

lemma py_isspace_newline: "py_isspace newline"
  by (simp add: py_isspace_def newline_def)

lemma py_strip_newline: "py_strip (l @ [newline]) = py_strip l"
proof (cases "\<forall>c \<in> set l. py_isspace c")
  case True
  have a: "dropWhile py_isspace l = []"
    using True by (intro iffD2[OF dropWhile_eq_Nil_conv]) simp
  have b: "dropWhile py_isspace (l @ [newline]) = []"
    using True by (intro iffD2[OF dropWhile_eq_Nil_conv]) (simp add: py_isspace_newline)
  show ?thesis by (simp only: py_strip_def a b)
next
  case False
  then obtain x where "x \<in> set l" "\<not> py_isspace x" by blast
  then have "dropWhile py_isspace (l @ [newline]) = dropWhile py_isspace l @ [newline]"
    by (rule dropWhile_append1)
  then show ?thesis by (simp add: py_strip_def py_isspace_newline)
qed

lemma mon_inv_init: "mon_inv [] [] world_init"
  by (simp add: mon_inv_def world_init_def PotfileMonitor_init_def file_content_def content_of_def pc_ok_def)

lemma mon_inv_append:
  assumes "mon_inv seen rest w" and "line_append (Append s)"
  shows "mon_inv seen (rest @ [butlast s]) (step True (Append s) w)"
proof -
  from assms(2) have "s \<noteq> []" "last s = newline" and cl: "clean_line (butlast s)"
    by simp_all
  then have s: "butlast s @ [newline] = s"
    using append_butlast_last_id[of s] by simp
  have fc: "file_content (step True (Append s) w) = file_content w @ s"
    by (simp add: file_content_def)
  have "content_of (seen @ rest @ [butlast s]) = content_of (seen @ rest) @ s"
    using s by (simp add: content_of_def)
  with assms(1) fc have fc': "file_content (step True (Append s) w) = content_of (seen @ rest @ [butlast s])"
    by (simp add: mon_inv_def)
  have pk: "pc_ok (step True (Append s) w)"
    using assms(1) fc by (auto simp: mon_inv_def pc_ok_def split: mon_pc.splits)
  show ?thesis
    unfolding mon_inv_def
  proof (intro conjI)
    show "file_content (step True (Append s) w) = content_of (seen @ rest @ [butlast s])" by (rule fc')
    show "\<forall>l\<in>set (seen @ rest @ [butlast s]). clean_line l"
      using assms(1) cl by (auto simp: mon_inv_def)
    show "last_position (monitor (step True (Append s) w)) = length (content_of seen)"
      using assms(1) by (simp add: mon_inv_def)
    show "emitted (step True (Append s) w) = map py_strip seen"
      using assms(1) by (simp add: mon_inv_def)
    show "last_size (monitor (step True (Append s) w)) \<le> last_position (monitor (step True (Append s) w))"
      using assms(1) by (simp add: mon_inv_def)
    show "pc_ok (step True (Append s) w)" by (rule pk)
  qed
qed

lemma mon_inv_stop:
  "mon_inv seen rest w \<Longrightarrow> mon_inv seen rest (step True StopRequest w)"
  by (auto simp: mon_inv_def pc_ok_def file_content_def split: mon_pc.splits)

lemma seen_rest_after: "seen_after seen rest w @ rest_after seen rest w = seen @ rest"
  by (simp add: seen_after_def rest_after_def split: mon_pc.splits)

lemma read_block_inv:
  assumes "mon_inv seen rest w" and "pc w = AtRead c" and "potfile w = Some content"
  shows "mon_inv (seen @ rest) [] (read_block c content w)"
proof -
  from assms have fc: "content = content_of seen @ content_of rest"
    by (simp add: mon_inv_def file_content_def content_of_append)
  from assms have lp: "last_position (monitor w) = length (content_of seen)"
    by (simp add: mon_inv_def)
  from assms have cl: "\<forall>l \<in> set rest. clean_line l"
    by (simp add: mon_inv_def)
  have nl: "readlines (drop (last_position (monitor w)) content) = map (\<lambda>l. l @ [newline]) rest"
    using fc lp cl by (simp add: readlines_content_of)
  have c: "c \<le> length content"
    using assms by (auto simp: mon_inv_def pc_ok_def file_content_def)
  have em: "emitted (read_block c content w) = map py_strip (seen @ rest)"
    using assms(1) nl by (simp add: read_block_def Let_def mon_inv_def py_strip_newline comp_def)
  have lp': "last_position (monitor (read_block c content w)) = length (content_of (seen @ rest))"
    using fc lp by (simp add: read_block_def Let_def content_of_append)
  have ls': "last_size (monitor (read_block c content w)) = c"
    by (simp add: read_block_def Let_def)
  have fc': "file_content (read_block c content w) = content_of (seen @ rest)"
    using assms fc by (simp add: read_block_def Let_def file_content_def content_of_append)
  have pk: "pc_ok (read_block c content w)"
    by (simp add: read_block_def Let_def pc_ok_def)
  show ?thesis
    unfolding mon_inv_def
    using em lp' ls' fc' pk c fc assms(1)
    by (simp add: mon_inv_def content_of_append)
qed

lemma mon_step_inv:
  assumes "mon_inv seen rest w"
  shows "mon_inv (seen_after seen rest w) (rest_after seen rest w) (mon_step True w)"
proof (cases "pc w")
  case AtExists
  then show ?thesis using assms
    by (auto simp: mon_step_def seen_after_def rest_after_def mon_inv_def pc_ok_def file_content_def)
next
  case AtGetsize
  then show ?thesis using assms
    by (auto simp: mon_step_def seen_after_def rest_after_def mon_inv_def pc_ok_def file_content_def
        split: option.splits)
next
  case (AtRead c)
  with assms obtain content where "potfile w = Some content"
    by (auto simp: mon_inv_def pc_ok_def)
  with AtRead assms show ?thesis
    by (simp add: mon_step_def seen_after_def rest_after_def read_block_inv)
next
  case Finished
  then show ?thesis using assms
    by (auto simp: mon_step_def seen_after_def rest_after_def)
qed

lemma run_Cons: "run True (e # evs) w = run True evs (step True e w)"
  by (simp add: run_def)

lemma run_append: "run True (evs @ evs') w = run True evs' (run True evs w)"
  by (simp add: run_def)

lemma run_MonSteps: "run True (replicate n MonStep) w = (mon_step True ^^ n) w"
  by (induction n arbitrary: w) (simp_all add: run_def funpow_swap1)

lemma run_inv:
  assumes "\<forall>e \<in> set evs. line_append e" and "mon_inv seen rest w"
  shows "\<exists>seen' rest'. seen' @ rest' = seen @ rest @ appended_lines evs
           \<and> mon_inv seen' rest' (run True evs w)"
  using assms
proof (induction evs arbitrary: seen rest w)
  case Nil
  then show ?case by (auto simp: run_def)
next
  case (Cons e evs)
  show ?case
  proof (cases e)
    case (Append s)
    with Cons.prems have "mon_inv seen (rest @ [butlast s]) (step True e w)"
      by (simp add: mon_inv_append del: step.simps line_append.simps)
    with Cons.IH[of seen "rest @ [butlast s]" "step True e w"] Cons.prems(1) Append
    show ?thesis by (simp add: run_Cons del: step.simps)
  next
    case MonStep
    with Cons.prems have "mon_inv (seen_after seen rest w) (rest_after seen rest w) (step True e w)"
      by (simp add: mon_step_inv)
    with Cons.IH[of "seen_after seen rest w" "rest_after seen rest w" "step True e w"] Cons.prems(1) MonStep
    have "\<exists>seen' rest'. seen' @ rest' = (seen_after seen rest w @ rest_after seen rest w) @ appended_lines evs
           \<and> mon_inv seen' rest' (run True evs (step True e w))"
      by simp
    then show ?thesis using MonStep
      by (simp add: run_Cons seen_rest_after del: step.simps)
  next
    case StopRequest
    with Cons.prems have "mon_inv seen rest (step True e w)"
      by (simp add: mon_inv_stop del: step.simps)
    with Cons.IH[of seen rest "step True e w"] Cons.prems(1) StopRequest
    show ?thesis by (simp add: run_Cons del: step.simps)
  qed
qed

lemma polling_step: "polling w \<Longrightarrow> e \<noteq> StopRequest \<Longrightarrow> polling (step True e w)"
  by (cases e)
     (auto simp: polling_def mon_step_def read_block_def Let_def split: mon_pc.splits option.splits)

lemma polling_run: "StopRequest \<notin> set evs \<Longrightarrow> polling w \<Longrightarrow> polling (run True evs w)"
proof (induction evs arbitrary: w)
  case Nil
  then show ?case by (simp add: run_def)
next
  case (Cons e evs)
  then have "polling (step True e w)" by (auto intro: polling_step)
  with Cons show ?case by (simp add: run_Cons del: step.simps)
qed

lemma polling_init: "polling world_init"
  by (simp add: polling_def world_init_def PotfileMonitor_init_def)

lemma caught_up_step: "mon_inv seen [] w \<Longrightarrow> mon_inv seen [] (mon_step True w)"
  using mon_step_inv[of seen "[]" w]
  by (simp add: seen_after_def rest_after_def split: mon_pc.splits)

lemma caught_up_steps: "mon_inv seen [] w \<Longrightarrow> mon_inv seen [] ((mon_step True ^^ n) w)"
  by (induction n) (simp_all add: caught_up_step)

lemma read_step: "mon_inv seen rest w \<Longrightarrow> pc w = AtRead c \<Longrightarrow> mon_inv (seen @ rest) [] (mon_step True w)"
  using mon_step_inv[of seen rest w]
  by (simp add: seen_after_def rest_after_def)

lemma behind_nonempty:
  assumes "mon_inv seen rest w" and "rest \<noteq> []"
  shows "\<exists>content. potfile w = Some content \<and> last_size (monitor w) < length content"
proof -
  from assms(2) have "content_of rest \<noteq> []" by (simp add: content_of_Nil_iff)
  then have "length (content_of seen) < length (content_of (seen @ rest))"
    by (simp add: content_of_append)
  with assms(1) have lt: "last_size (monitor w) < length (file_content w)"
    by (simp add: mon_inv_def)
  then show ?thesis by (cases "potfile w") (simp_all add: file_content_def)
qed

lemma getsize_step:
  assumes "mon_inv seen rest w" and "rest \<noteq> []" and "pc w = AtGetsize"
  shows "mon_inv seen rest (mon_step True w) \<and> (\<exists>c. pc (mon_step True w) = AtRead c)"
proof -
  from behind_nonempty[OF assms(1,2)] obtain content where
    c: "potfile w = Some content" "last_size (monitor w) < length content" by blast
  have "mon_inv seen rest (mon_step True w)"
    using mon_step_inv[OF assms(1)] assms(3) by (simp add: seen_after_def rest_after_def)
  moreover have "pc (mon_step True w) = AtRead (length content)"
    using c assms(3) by (simp add: mon_step_def)
  ultimately show ?thesis by blast
qed

lemma exists_step:
  assumes "mon_inv seen rest w" and "rest \<noteq> []" and "pc w = AtExists" and "polling w"
  shows "mon_inv seen rest (mon_step True w) \<and> pc (mon_step True w) = AtGetsize"
proof -
  from behind_nonempty[OF assms(1,2)] obtain content where
    c: "potfile w = Some content" by blast
  have "mon_inv seen rest (mon_step True w)"
    using mon_step_inv[OF assms(1)] assms(3) by (simp add: seen_after_def rest_after_def)
  moreover have "pc (mon_step True w) = AtGetsize"
    using c assms(3,4) by (simp add: mon_step_def polling_def)
  ultimately show ?thesis by blast
qed

lemma three_steps:
  assumes "mon_inv seen rest w" and "polling w"
  shows "mon_inv (seen @ rest) [] (mon_step True (mon_step True (mon_step True w)))"
proof (cases "rest = []")
  case True
  with assms(1) show ?thesis by (simp add: caught_up_step)
next
  case False
  show ?thesis
  proof (cases "pc w")
    case AtExists
    from exists_step[OF assms(1) False AtExists assms(2)]
    have 1: "mon_inv seen rest (mon_step True w)" "pc (mon_step True w) = AtGetsize" by simp_all
    from getsize_step[OF 1(1) False 1(2)] obtain c where
      2: "mon_inv seen rest (mon_step True (mon_step True w))" "pc (mon_step True (mon_step True w)) = AtRead c" by blast
    from read_step[OF 2] show ?thesis .
  next
    case AtGetsize
    from getsize_step[OF assms(1) False AtGetsize] obtain c where
      2: "mon_inv seen rest (mon_step True w)" "pc (mon_step True w) = AtRead c" by blast
    from read_step[OF 2] show ?thesis by (simp add: caught_up_step)
  next
    case (AtRead c)
    from read_step[OF assms(1) AtRead] show ?thesis by (simp add: caught_up_step)
  next
    case Finished
    with assms(2) show ?thesis by (simp add: polling_def)
  qed
qed

lemma enough_steps:
  assumes "mon_inv seen rest w" and "polling w" and "3 \<le> n"
  shows "mon_inv (seen @ rest) [] ((mon_step True ^^ n) w)"
proof -
  from assms(3) obtain k where n: "n = k + 3" by (metis add.commute le_Suc_ex)
  have "(mon_step True ^^ n) w = (mon_step True ^^ k) (mon_step True (mon_step True (mon_step True w)))"
    unfolding n by (simp add: funpow_add numeral_3_eq_3 funpow_swap1)
  with three_steps[OF assms(1,2)] show ?thesis by (simp add: caught_up_steps)
qed

lemma monitor_with_os_emits_each_line_once:
  assumes "\<forall>e \<in> set evs. line_append e"
  shows "prefix (emitted (run True evs world_init)) (map py_strip (appended_lines evs))
       \<and> (StopRequest \<notin> set evs \<longrightarrow>
            (\<forall>n\<ge>3. emitted (run True (evs @ replicate n MonStep) world_init)
                      = map py_strip (appended_lines evs)))"
proof -
  from run_inv[OF assms mon_inv_init] obtain seen rest where
    sr: "seen @ rest = appended_lines evs" and inv: "mon_inv seen rest (run True evs world_init)"
    by auto
  from inv have em: "emitted (run True evs world_init) = map py_strip seen"
    by (simp add: mon_inv_def)
  have "prefix (map py_strip seen) (map py_strip (seen @ rest))"
    by simp
  with em sr have p: "prefix (emitted (run True evs world_init)) (map py_strip (appended_lines evs))"
    by simp
  have "emitted (run True (evs @ replicate n MonStep) world_init) = map py_strip (appended_lines evs)"
    if ns: "StopRequest \<notin> set evs" and n: "3 \<le> n" for n
  proof -
    from ns have "polling (run True evs world_init)" by (simp add: polling_run polling_init)
    from enough_steps[OF inv this n]
    have "mon_inv (seen @ rest) [] (run True (evs @ replicate n MonStep) world_init)"
      by (simp add: run_append run_MonSteps)
    then show ?thesis using sr by (simp add: mon_inv_def)
  qed
  with p show ?thesis by blast
qed

end
